theory Spec2Isabelle
  imports Complex_Main "HOL-Library.Sublist"
begin

section \<open>Text helpers used by the executor\<close>

text \<open>
  Python strings are modelled as \<open>string\<close>. The three operations of \<open>str\<close> that
  \<open>executor.py\<close> relies on are \<open>split('\n')\<close>, \<open>sep.join(xs)\<close>, \<open>strip()\<close> and the
  substring test \<open>x in s\<close>.
\<close>

definition NL :: char where
  "NL = CHR 0x0A"

text \<open>\<open>s.split('\n')\<close>: the segments between newlines; never the empty list.\<close>

fun split_nl :: "string \<Rightarrow> string list" where
  "split_nl [] = [[]]"
| "split_nl (c # cs) =
     (if c = NL then [] # split_nl cs
      else (case split_nl cs of
              [] \<Rightarrow> [[c]]
            | l # ls \<Rightarrow> (c # l) # ls))"

text \<open>\<open>sep.join(xs)\<close>.\<close>

fun str_join :: "string \<Rightarrow> string list \<Rightarrow> string" where
  "str_join sep [] = []"
| "str_join sep [l] = l"
| "str_join sep (l # l' # ls) = l @ sep @ str_join sep (l' # ls)"

text \<open>
  \<open>str.isspace\<close> on the code points below 256: tab, line feed, vertical tab, form feed,
  carriage return, the four separators \<open>0x1C..0x1F\<close>, space, \<open>0x85\<close> and \<open>0xA0\<close>.
\<close>

definition is_space :: "char \<Rightarrow> bool" where
  "is_space c \<longleftrightarrow>
     c \<in> set [CHR 0x09, CHR 0x0A, CHR 0x0B, CHR 0x0C, CHR 0x0D,
              CHR 0x1C, CHR 0x1D, CHR 0x1E, CHR 0x1F, CHR 0x20, CHR 0x85, CHR 0xA0]"

text \<open>\<open>s.strip()\<close>.\<close>

definition strip :: "string \<Rightarrow> string" where
  "strip s = rev (dropWhile is_space (rev (dropWhile is_space s)))"

text \<open>\<open>needle in hay\<close> for strings.\<close>

fun contains :: "string \<Rightarrow> string \<Rightarrow> bool" where
  "contains needle [] = (needle = [])"
| "contains needle (c # cs) = (prefix needle (c # cs) \<or> contains needle cs)"

section \<open>\<open>CodeExecutor._clean_script_content\<close>\<close>

definition activation_directive :: string where
  "activation_directive = ''mamba activate abc_runtime''"

definition conda_hook :: string where
  "conda_hook = ''conda shell.bash hook''"

text \<open>
  The \<open>for line in lines\<close> loop, with the two locals \<open>seen_activations\<close> and
  \<open>cleaned_lines\<close> threaded through.
\<close>

fun clean_loop :: "string set \<Rightarrow> string list \<Rightarrow> string list \<Rightarrow> string list" where
  "clean_loop seen_activations cleaned_lines [] = cleaned_lines"
| "clean_loop seen_activations cleaned_lines (line # lines) =
     (let stripped = strip line in
      if contains activation_directive stripped then
        (if ''abc_runtime'' \<notin> seen_activations
         then clean_loop (insert ''abc_runtime'' seen_activations) (cleaned_lines @ [line]) lines
         else clean_loop seen_activations cleaned_lines lines)
      else if contains conda_hook stripped then
        clean_loop seen_activations cleaned_lines lines
      else clean_loop seen_activations (cleaned_lines @ [line]) lines)"

definition clean_script_content :: "string \<Rightarrow> string" where
  "clean_script_content content = str_join [NL] (clean_loop {} [] (split_nl content))"

text \<open>A line is an activation line when the directive occurs in it after stripping.\<close>

definition is_activation :: "string \<Rightarrow> bool" where
  "is_activation line = contains activation_directive (strip line)"

definition is_hook :: "string \<Rightarrow> bool" where
  "is_hook line = contains conda_hook (strip line)"

text \<open>
  Two auxiliary notions for stating what the loop computes: a plain line is neither an
  activation line nor a hook line, and \<open>keep_first\<close> is the loop started with an empty
  \<open>seen_activations\<close>, written without the accumulator.
\<close>

definition plain :: "string \<Rightarrow> bool" where
  "plain l \<longleftrightarrow> \<not> is_activation l \<and> \<not> is_hook l"

fun keep_first :: "string list \<Rightarrow> string list" where
  "keep_first [] = []"
| "keep_first (l # ls) =
     (if is_activation l then l # filter plain ls
      else if is_hook l then keep_first ls
      else l # keep_first ls)"

text \<open>
  The number of places in a text at which a given text starts, and a script line that
  holds the activation directive three times.
\<close>

fun count_occurrences :: "string \<Rightarrow> string \<Rightarrow> nat" where
  "count_occurrences needle [] = 0"
| "count_occurrences needle (c # cs) =
     (if prefix needle (c # cs) then 1 else 0) + count_occurrences needle cs"

definition three_on_one_line :: string where
  "three_on_one_line =
     ''mamba activate abc_runtime; mamba activate abc_runtime; mamba activate abc_runtime''"

section \<open>\<open>CodeExecutor\<close>: state, files and observations\<close>

text \<open>
  Exceptions are values. Each constructor carries the text that \<open>str(e)\<close> gives.
  \<open>TimeoutExpired\<close> and \<open>ProcessLookupError\<close> are kept apart because
  \<open>terminate\<close> has handlers of their own for them.
\<close>

datatype exn =
    FileNotFoundError string
  | PermissionError string
  | ProcessLookupError string
  | TimeoutExpired string
  | OtherError string

fun exn_str :: "exn \<Rightarrow> string" where
  "exn_str (FileNotFoundError m) = m"
| "exn_str (PermissionError m) = m"
| "exn_str (ProcessLookupError m) = m"
| "exn_str (TimeoutExpired m) = m"
| "exn_str (OtherError m) = m"

fun is_timeout :: "exn \<Rightarrow> bool" where
  "is_timeout (TimeoutExpired m) = True"
| "is_timeout e = False"

fun is_process_lookup :: "exn \<Rightarrow> bool" where
  "is_process_lookup (ProcessLookupError m) = True"
| "is_process_lookup e = False"

text \<open>
  The process handle \<open>subprocess.Popen\<close>: its pid and what \<open>poll()\<close> returns
  (\<open>None\<close> while the process runs, the return code once it has exited).
\<close>

record process =
  pid :: nat
  poll :: "int option"

text \<open>The fields of \<open>CodeExecutor\<close> (the lock is not modelled).\<close>

record executor =
  bash_code_path :: "string option"
  bash_code_path_execute :: "string option"
  code_prefix :: "string list"
  code_postfix :: "string list"
  current_process :: "process option"
  is_interrupted :: bool

text \<open>\<open>CodeExecutor.__init__\<close>.\<close>

definition init_executor :: executor where
  \<open>init_executor =
     \<lparr> bash_code_path = None,
       bash_code_path_execute = None,
       code_prefix = [''eval "$(mamba shell hook --shell bash)"'', ''mamba activate abc_runtime''],
       code_postfix = [],
       current_process = None,
       is_interrupted = False \<rparr>\<close>

text \<open>
  The files \<open>execute\<close> touches: a map from paths to contents, and the paths that cannot
  be opened for writing. Opening a missing path for reading raises; opening an unwritable
  path for writing raises before anything is written.
\<close>

record filesystem =
  files :: "string \<rightharpoonup> string"
  unwritable :: "string \<Rightarrow> bool"

definition read_file :: "filesystem \<Rightarrow> string \<Rightarrow> exn + string" where
  "read_file fs path =
     (case files fs path of
        None \<Rightarrow> Inl (FileNotFoundError path)
      | Some content \<Rightarrow> Inr content)"

definition write_file :: "filesystem \<Rightarrow> string \<Rightarrow> string \<Rightarrow> exn + filesystem" where
  "write_file fs path content =
     (if unwritable fs path then Inl (PermissionError path)
      else Inr (fs\<lparr>files := (files fs)(path \<mapsto> content)\<rparr>))"

text \<open>The text written to the execute script: prefix lines, cleaned content, a newline, postfix lines.\<close>

definition script_text :: "executor \<Rightarrow> string \<Rightarrow> string" where
  "script_text self cleaned_content =
     concat (map (\<lambda>code. code @ [NL]) (code_prefix self)) @ cleaned_content @ [NL] @
     concat (map (\<lambda>code. code @ [NL]) (code_postfix self))"

text \<open>
  What one iteration of the stdout loop observes: the interrupted flag set (by
  \<open>terminate\<close>, from another thread); or a \<open>readline()\<close> result together with whether
  \<open>poll()\<close> reports the process as exited; or an exception from either call.
\<close>

datatype read_obs =
    SeesInterrupt
  | Readline string bool
  | ReadRaises exn

datatype loop_end = Break | Raise exn | Blocked

text \<open>
  The \<open>while True\<close> loop over stdout. When the observations run out before the loop
  breaks, the loop is still waiting for output: \<open>Blocked\<close>.
\<close>

fun read_stdout :: "string list \<Rightarrow> read_obs list \<Rightarrow> string list \<times> loop_end" where
  "read_stdout stdout [] = (stdout, Blocked)"
| "read_stdout stdout (SeesInterrupt # rest) = (stdout, Break)"
| "read_stdout stdout (ReadRaises e # rest) = (stdout, Raise e)"
| "read_stdout stdout (Readline output exited # rest) =
     (if output = [] \<and> exited then (stdout, Break)
      else if output \<noteq> [] then read_stdout (stdout @ [''[stdout] '' @ strip output]) rest
      else read_stdout stdout rest)"

definition stderr_noise :: "string list" where
  "stderr_noise =
     [''EnvironmentNameNotFound'', ''terminal process group'', ''no job control'', ''shell.bash hook'']"

text \<open>The stderr lines that are kept: no noise substring, and not a bare newline.\<close>

definition keep_stderr :: "string \<Rightarrow> bool" where
  "keep_stderr line \<longleftrightarrow> \<not> list_ex (\<lambda>x. contains x line) stderr_noise \<and> line \<noteq> [NL]"

text \<open>\<open>xs[-n:]\<close> for a positive \<open>n\<close>.\<close>

definition last_n :: "nat \<Rightarrow> 'a list \<Rightarrow> 'a list" where
  "last_n n xs = drop (length xs - n) xs"

text \<open>
  Everything one call of \<open>execute\<close> observes from the operating system and from the
  other threads, in program order: the result of \<open>Popen\<close>, the iterations of the stdout
  loop, \<open>stderr.readlines()\<close>, the interrupted flag before \<open>communicate()\<close>, the result
  of \<open>communicate()\<close>, and the interrupted flag before returning.
\<close>

record run_obs =
  spawn_result :: "exn + nat"
  stdout_reads :: "read_obs list"
  stderr_result :: "exn + string list"
  interrupted_at_wait :: bool
  communicate_result :: "exn option"
  interrupted_at_return :: bool

text \<open>
  The outcome of a call: \<open>None\<close> when it is still blocked, \<open>Some (Inl e)\<close> when \<open>e\<close>
  was raised to the caller, \<open>Some (Inr text)\<close> when \<open>text\<close> was returned.
\<close>

type_synonym outcome = "(exn + string) option"

text \<open>The \<open>except Exception as e\<close> handler of \<open>execute\<close>.\<close>

definition execute_handler :: "executor \<Rightarrow> exn \<Rightarrow> executor \<times> outcome" where
  "execute_handler self e =
     (self\<lparr>current_process := None\<rparr>, Some (Inr (''Execution error: '' @ exn_str e)))"

text \<open>The end of the \<open>try\<close> block, from \<open>with self.process_lock\<close> to the two returns.\<close>

definition execute_return :: "executor \<Rightarrow> run_obs \<Rightarrow> string \<Rightarrow> string \<Rightarrow> executor \<times> outcome" where
  "execute_return self obs stdout_str stderr_str =
     (self\<lparr>current_process := None\<rparr>,
      Some (Inr (if interrupted_at_return obs
                 then ''Process interrupted by user'' @ [NL] @ stdout_str @ [NL] @ stderr_str
                 else stdout_str @ [NL] @ stderr_str)))"

text \<open>The \<open>try\<close> block of \<open>execute\<close>.\<close>

definition run_process :: "executor \<Rightarrow> run_obs \<Rightarrow> executor \<times> outcome" where
  "run_process self obs =
     (case spawn_result obs of
        Inl e \<Rightarrow> execute_handler self e
      | Inr new_pid \<Rightarrow>
          (let self' = self\<lparr>current_process := Some \<lparr>pid = new_pid, poll = None\<rparr>\<rparr> in
           case read_stdout [] (stdout_reads obs) of
             (_, Blocked) \<Rightarrow> (self', None)
           | (_, Raise e) \<Rightarrow> execute_handler self' e
           | (stdout, Break) \<Rightarrow>
               (case stderr_result obs of
                  Inl e \<Rightarrow> execute_handler self' e
                | Inr lines \<Rightarrow>
                    (let stderr = filter keep_stderr lines;
                         stdout_str = str_join [NL] (last_n 10 stdout);
                         stderr_str = str_join [NL] (last_n 10 stderr)
                     in if \<not> interrupted_at_wait obs then
                          (case communicate_result obs of
                             Some e \<Rightarrow> execute_handler self' e
                           | None \<Rightarrow> execute_return self' obs stdout_str stderr_str)
                        else execute_return self' obs stdout_str stderr_str))))"

text \<open>
  The result of a call of \<open>execute\<close>: the executor and the files afterwards, the command
  handed to \<open>Popen\<close> (if the call got that far) and the outcome.
\<close>

record exec_result =
  ex_self :: executor
  ex_fs :: filesystem
  ex_command :: "string list option"
  ex_outcome :: outcome

text \<open>
  \<open>CodeExecutor.execute\<close>. Reading the script and writing the execute script happen
  before the \<open>try\<close>: what they raise reaches the caller. What \<open>execute\<close> prints is
  left out, and so is the start of the monitor thread, whose only effect on the call is
  through \<open>terminate\<close>. The fields \<open>is_interrupted\<close> and
  \<open>current_process\<close> are also written by \<open>terminate\<close> from the monitor thread; the
  returned executor holds what \<open>execute\<close> itself wrote, and what it read of the flag is in
  the observations.
\<close>

definition execute :: "executor \<Rightarrow> filesystem \<Rightarrow> string \<Rightarrow> run_obs \<Rightarrow> exec_result" where
  "execute self fs path obs =
     (let self1 = self\<lparr>bash_code_path := Some path, is_interrupted := False\<rparr> in
      case read_file fs path of
        Inl e \<Rightarrow>
          \<lparr>ex_self = self1, ex_fs = fs, ex_command = None, ex_outcome = Some (Inl e)\<rparr>
      | Inr bash_content \<Rightarrow>
          (let path_execute = path @ ''.execute.sh'';
               self2 = self1\<lparr>bash_code_path_execute := Some path_execute\<rparr>;
               cleaned_content = clean_script_content bash_content
           in case write_file fs path_execute (script_text self2 cleaned_content) of
                Inl e \<Rightarrow>
                  \<lparr>ex_self = self2, ex_fs = fs, ex_command = None, ex_outcome = Some (Inl e)\<rparr>
              | Inr fs' \<Rightarrow>
                  (case run_process self2 obs of
                     (self3, result) \<Rightarrow>
                       \<lparr>ex_self = self3, ex_fs = fs',
                        ex_command = Some [''bash'', ''-e'', path_execute],
                        ex_outcome = result\<rparr>)))"

section \<open>\<open>CodeExecutor.terminate\<close>\<close>

datatype signal = SIGTERM | SIGKILL

text \<open>
  What \<open>terminate\<close> does to the process: a signal to the process group, a signal to the
  process alone (\<open>Popen.terminate\<close>, \<open>Popen.kill\<close>), or a wait with an optional timeout
  in seconds.
\<close>

datatype os_action =
    Killpg nat signal
  | ProcTerminate
  | ProcKill
  | WaitFor "nat option"

text \<open>The result of each system call \<open>terminate\<close> can make, in program order.\<close>

record kill_obs =
  getpgid_result :: "exn + nat"
  killpg_sigterm :: "exn option"
  wait_grace :: "exn option"
  killpg_sigkill :: "exn option"
  wait_killed :: "exn option"
  proc_terminate :: "exn option"
  wait_fallback :: "exn option"
  proc_kill :: "exn option"
  wait_fallback_kill :: "exn option"

text \<open>Decimal text of a number, as an f-string prints it.\<close>

fun show_nat :: "nat \<Rightarrow> string" where
  "show_nat n =
     (if n < 10 then [''0123456789'' ! n]
      else show_nat (n div 10) @ [''0123456789'' ! (n mod 10)])"

text \<open>
  The inner \<open>try\<close> body: signal the group, wait two seconds, escalate. Returns the
  actions taken, the lines printed, and the exception that left the body, if any.
\<close>

definition group_kill :: "kill_obs \<Rightarrow> nat \<Rightarrow> os_action list \<times> string list \<times> exn option" where
  "group_kill obs p =
     (case getpgid_result obs of
        Inl e \<Rightarrow> ([], [], Some e)
      | Inr pgid \<Rightarrow>
          (let log1 = [''[EXECUTOR] Killing process group '' @ show_nat pgid @ ''...'']
           in case killpg_sigterm obs of
                Some e \<Rightarrow> ([Killpg pgid SIGTERM], log1, Some e)
              | None \<Rightarrow>
                  (case wait_grace obs of
                     None \<Rightarrow>
                       ([Killpg pgid SIGTERM, WaitFor (Some 2)],
                        log1 @ [''[EXECUTOR] Process group '' @ show_nat pgid @ '' terminated''],
                        None)
                   | Some e \<Rightarrow>
                       if is_timeout e then
                         (let log2 = log1 @
                                [''[EXECUTOR] Force killing process group '' @ show_nat pgid @ ''...'']
                          in case killpg_sigkill obs of
                               Some e' \<Rightarrow>
                                 ([Killpg pgid SIGTERM, WaitFor (Some 2), Killpg pgid SIGKILL],
                                  log2, Some e')
                             | None \<Rightarrow>
                                 (case wait_killed obs of
                                    Some e' \<Rightarrow>
                                      ([Killpg pgid SIGTERM, WaitFor (Some 2), Killpg pgid SIGKILL,
                                        WaitFor None], log2, Some e')
                                  | None \<Rightarrow>
                                      ([Killpg pgid SIGTERM, WaitFor (Some 2), Killpg pgid SIGKILL,
                                        WaitFor None],
                                       log2 @ [''[EXECUTOR] Process group '' @ show_nat pgid @ '' killed''],
                                       None)))
                       else ([Killpg pgid SIGTERM, WaitFor (Some 2)], log1, Some e))))"

text \<open>
  The fallback of the \<open>except Exception\<close> handler: terminate the process alone and wait;
  on any exception kill it and wait. An exception of the second pair leaves the handler.
\<close>

definition fallback_kill :: "kill_obs \<Rightarrow> os_action list \<times> exn option" where
  "fallback_kill obs =
     (let forced =
            (case proc_kill obs of
               Some e \<Rightarrow> ([ProcKill], Some e)
             | None \<Rightarrow>
                 (case wait_fallback_kill obs of
                    Some e \<Rightarrow> ([ProcKill, WaitFor None], Some e)
                  | None \<Rightarrow> ([ProcKill, WaitFor None], None)))
      in case proc_terminate obs of
           Some e \<Rightarrow> ([ProcTerminate] @ fst forced, snd forced)
         | None \<Rightarrow>
             (case wait_fallback obs of
                None \<Rightarrow> ([ProcTerminate, WaitFor (Some 2)], None)
              | Some e \<Rightarrow> ([ProcTerminate, WaitFor (Some 2)] @ fst forced, snd forced)))"

text \<open>
  \<open>CodeExecutor.terminate\<close>: the executor afterwards, the actions taken on the process
  and the lines printed. No exception leaves it.
\<close>

definition terminate :: "executor \<Rightarrow> kill_obs \<Rightarrow> executor \<times> os_action list \<times> string list" where
  "terminate self obs =
     (case current_process self of
        None \<Rightarrow> (self, [], [''[EXECUTOR] No active process to terminate''])
      | Some proc \<Rightarrow>
          if poll proc = None then
            (let log0 = [''[EXECUTOR] Terminating process '' @ show_nat (pid proc) @ ''...''];
                 self' = self\<lparr>is_interrupted := True\<rparr>;
                 (acts, logs, raised) =
                   (case group_kill obs (pid proc) of
                      (acts1, log1, None) \<Rightarrow> (acts1, log0 @ log1, None)
                    | (acts1, log1, Some e) \<Rightarrow>
                        if is_process_lookup e then
                          (acts1,
                           log0 @ log1 @
                             [''[EXECUTOR] Process '' @ show_nat (pid proc) @ '' already terminated''],
                           None)
                        else
                          (case fallback_kill obs of
                             (acts2, r) \<Rightarrow>
                               (acts1 @ acts2,
                                log0 @ log1 @ [''[EXECUTOR] Error during killpg: '' @ exn_str e],
                                r)))
             in (self'\<lparr>current_process := None\<rparr>, acts,
                 (case raised of
                    None \<Rightarrow> logs
                  | Some e \<Rightarrow> logs @ [''[EXECUTOR] Error terminating process: '' @ exn_str e])))
          else (self, [], [''[EXECUTOR] No active process to terminate'']))"

section \<open>Auxiliary notions and sample inputs for the executor\<close>

text \<open>
  The condition under which \<open>terminate\<close> acts: a process handle is stored and
  \<open>poll()\<close> reports it as still running.
\<close>

definition has_running_process :: "executor \<Rightarrow> bool" where
  "has_running_process self =
     (case current_process self of None \<Rightarrow> False | Some proc \<Rightarrow> poll proc = None)"



text \<open>The line \<open>terminate\<close> prints when it has nothing to do.\<close>

definition no_process_msg :: string where
  "no_process_msg = ''[EXECUTOR] No active process to terminate''"

text \<open>A script, two file systems, and observations of a run and of a termination.\<close>

definition example_script :: string where
  "example_script = ''mamba activate abc_runtime'' @ [NL] @ ''echo done''"

definition example_fs :: filesystem where
  "example_fs = \<lparr> files = [''/work/run.sh'' \<mapsto> example_script], unwritable = (\<lambda>p. False) \<rparr>"


definition example_obs :: run_obs where
  "example_obs =
     \<lparr> spawn_result = Inr 4242,
       stdout_reads = [Readline (''done'' @ [NL]) False, Readline [] True],
       stderr_result = Inr [],
       interrupted_at_wait = False,
       communicate_result = None,
       interrupted_at_return = False \<rparr>"


definition quiet_kill_obs :: kill_obs where
  "quiet_kill_obs =
     \<lparr> getpgid_result = Inr 4242, killpg_sigterm = None, wait_grace = None,
       killpg_sigkill = None, wait_killed = None, proc_terminate = None,
       wait_fallback = None, proc_kill = None, wait_fallback_kill = None \<rparr>"

definition exited_executor :: executor where
  "exited_executor = init_executor \<lparr> current_process := Some \<lparr> pid = 4242, poll = Some 0 \<rparr> \<rparr>"

definition running_executor :: executor where
  "running_executor = init_executor \<lparr> current_process := Some \<lparr> pid = 4242, poll = None \<rparr> \<rparr>"





section \<open>\<open>log_handler.py\<close>: the task state\<close>

text \<open>
  What \<open>_save_task_state\<close> is given: the record written when a task starts (mode, start
  time, configuration), the periodic
  record of the streaming loop, and the final record. A failed write is only printed by
  \<open>_save_task_state\<close>, so the model keeps the sequence of records handed to it.
\<close>

datatype checkpoint =
    Started string string "string \<rightharpoonup> string"
  | Progress nat string
  | Finished nat string

text \<open>The \<open>'running'\<close> field of each record.\<close>

fun running :: "checkpoint \<Rightarrow> bool" where
  "running (Started mode start_time cfg) = True"
| "running (Progress line_count last_update) = True"
| "running (Finished line_count end_time) = False"

text \<open>
  The module globals: the log queue, the worker thread handle (a thread is named by a
  number), the stop flag (a \<open>threading.Event\<close>), \<open>task_running\<close>,
  \<open>_task_start_time\<close>, and the records saved so far. There is no other field: the stop
  flag is the whole cancellation signal.
\<close>

record task_state =
  log_queue :: "string list"
  current_thread :: "nat option"
  stop_flag :: bool
  task_running :: bool
  task_start_time :: "real option"
  saved :: "checkpoint list"

definition idle_state :: task_state where
  "idle_state =
     \<lparr> log_queue = [], current_thread = None, stop_flag = False, task_running = False,
       task_start_time = None, saved = [] \<rparr>"

definition save_task_state :: "checkpoint \<Rightarrow> task_state \<Rightarrow> task_state" where
  "save_task_state state s = s\<lparr>saved := saved s @ [state]\<rparr>"

definition clear_log_queue :: "task_state \<Rightarrow> task_state" where
  "clear_log_queue s = s\<lparr>log_queue := []\<rparr>"

definition init_task_state :: "real \<Rightarrow> task_state \<Rightarrow> task_state" where
  "init_task_state now s = clear_log_queue (s\<lparr>task_running := True, task_start_time := Some now\<rparr>)"

definition reset_task_state :: "task_state \<Rightarrow> task_state" where
  "reset_task_state s =
     s\<lparr>task_running := False, task_start_time := None, current_thread := None,
       stop_flag := False\<rparr>"

definition set_current_thread :: "nat \<Rightarrow> task_state \<Rightarrow> task_state" where
  "set_current_thread thread s = s\<lparr>current_thread := Some thread\<rparr>"

definition is_task_running :: "task_state \<Rightarrow> bool" where
  "is_task_running s = task_running s"

section \<open>\<open>gui.py\<close>: starting and stopping a task\<close>

text \<open>
  A start request as \<open>unified_analysis_executor\<close> receives it: the configuration (a
  dictionary of texts), the API key and the mode name. The model name and the execute
  switch are only passed on to the worker.
\<close>

record request =
  config :: "string \<rightharpoonup> string"
  api_key :: string
  mode_name :: string

datatype report =
    ConfigMissing "string list"
  | ApiKeyMissing
  | AlreadyRunning
  | Accepted

definition required_keys :: "string list" where
  "required_keys = [''files'', ''output_dir'', ''goal'', ''data_type'']"

text \<open>\<open>not config.get(k)\<close>: the key is absent or its text is empty.\<close>

definition missing_keys :: "(string \<rightharpoonup> string) \<Rightarrow> string list" where
  "missing_keys cfg = filter (\<lambda>k. case cfg k of None \<Rightarrow> True | Some v \<Rightarrow> v = []) required_keys"

text \<open>
  \<open>unified_analysis_executor\<close> up to the start of the worker thread. \<open>now\<close> and
  \<open>now_text\<close> are the clock readings of \<open>time.time()\<close> and \<open>time.strftime\<close>, and
  \<open>thread\<close> names the new worker thread. The three rejections yield their message and
  return; nothing after them runs.
\<close>

definition start_task :: "request \<Rightarrow> real \<Rightarrow> string \<Rightarrow> nat \<Rightarrow> task_state \<Rightarrow> report \<times> task_state" where
  "start_task req now now_text thread s =
     (if missing_keys (config req) \<noteq> [] then (ConfigMissing (missing_keys (config req)), s)
      else if api_key req = [] \<or> strip (api_key req) = [] then (ApiKeyMissing, s)
      else if is_task_running s then (AlreadyRunning, s)
      else
        (let s1 = init_task_state now s;
             s2 = s1\<lparr>stop_flag := False\<rparr>;
             s3 = save_task_state (Started (mode_name req) now_text (config req)) s2;
             s4 = set_current_thread thread s3
         in (Accepted, s4)))"

text \<open>
  \<open>stop_analysis\<close>: the flag is set only when a task is running. \<open>reset_chat\<close> and
  \<open>start_new_conversation\<close> treat the flag in the same way.
\<close>

definition stop_analysis :: "task_state \<Rightarrow> bool \<times> task_state" where
  "stop_analysis s =
     (if \<not> is_task_running s then (False, s) else (True, s\<lparr>stop_flag := True\<rparr>))"

text \<open>\<open>signal_handler\<close> sets the flag unconditionally.\<close>

definition signal_handler :: "task_state \<Rightarrow> task_state" where
  "signal_handler s = s\<lparr>stop_flag := True\<rparr>"

text \<open>
  The places that write the task state, as events: a start request, a stop request, the
  interrupt signal, the \<open>finally\<close> clause of the worker (\<open>reset_task_state\<close>), and the end
  of the streaming loop (\<open>task_running = False\<close> after the final record is saved).
\<close>

datatype event =
    StartRequest request real string nat
  | StopRequest
  | Sigint
  | WorkerFinally
  | StreamEnd nat string

fun step :: "event \<Rightarrow> task_state \<Rightarrow> task_state" where
  "step (StartRequest req now now_text thread) s = snd (start_task req now now_text thread s)"
| "step StopRequest s = snd (stop_analysis s)"
| "step Sigint s = signal_handler s"
| "step WorkerFinally s = reset_task_state s"
| "step (StreamEnd line_count end_time) s =
     (save_task_state (Finished line_count end_time) s)\<lparr>task_running := False\<rparr>"

definition run_events :: "event list \<Rightarrow> task_state \<Rightarrow> task_state" where
  "run_events es s = fold step es s"

text \<open>A start request creates a task exactly when it is accepted.\<close>

fun creates_task :: "event \<Rightarrow> task_state \<Rightarrow> bool" where
  "creates_task (StartRequest req now now_text thread) s =
     (fst (start_task req now now_text thread s) = Accepted)"
| "creates_task e s = False"

text \<open>The number of tasks created along a sequence of events.\<close>

fun tasks_created :: "event list \<Rightarrow> task_state \<Rightarrow> nat" where
  "tasks_created [] s = 0"
| "tasks_created (e # es) s = (if creates_task e s then 1 else 0) + tasks_created es (step e s)"

text \<open>Sample requests.\<close>

definition good_request :: request where
  "good_request =
     \<lparr> config = [''files'' \<mapsto> ''/data/a.fastq'', ''output_dir'' \<mapsto> ''/data/out'',
                 ''goal'' \<mapsto> ''call peaks'', ''data_type'' \<mapsto> ''MeRIP-seq''],
       api_key = ''sk-test'', mode_name = ''Analysis'' \<rparr>"


definition busy_state :: task_state where
  "busy_state =
     \<lparr> log_queue = [''[12:00:00]working''], current_thread = Some 1, stop_flag = False,
       task_running = True, task_start_time = Some 100, saved = [Started ''Analysis'' ''t0'' Map.empty] \<rparr>"



section \<open>\<open>log_handler.py\<close>: the streaming loop\<close>

definition MAX_DISPLAY_LINES :: nat where
  "MAX_DISPLAY_LINES = 100"

definition MAX_HISTORY_LINES :: nat where
  "MAX_HISTORY_LINES = 500"

definition MIN_YIELD_INTERVAL :: real where
  "MIN_YIELD_INTERVAL = 1 / 10"

definition HEARTBEAT_INTERVAL :: real where
  "HEARTBEAT_INTERVAL = 10"

definition SAVE_INTERVAL :: real where
  "SAVE_INTERVAL = 30"

text \<open>
  An entry of \<open>log_buffer\<close>: a record taken from the queue, or the fixed notice that the
  loop appends when it sees the stop flag.
\<close>

datatype entry = Rec string | StopNotice

text \<open>The closing line of the final text: stopped, or completed with the line count.\<close>

datatype final_banner = TaskStopped | TaskCompleted nat

text \<open>
  The three texts the generator yields, by their parts. \<open>Live\<close> is the periodic text: the
  number of the truncation banner (if any), the displayed lines, and the statistics line
  (total lines, lines displayed, elapsed time, running or completed). \<open>Stopping\<close> is the
  text yielded when the stop flag is seen. \<open>Final\<close> is the last text: banner number,
  displayed lines and closing line.
\<close>

datatype snapshot =
    Live (hidden: "nat option") (shown_lines: "entry list") (total: nat) (shown: nat)
         (elapsed: string) (live: bool)
  | Stopping (shown_lines: "entry list")
  | Final (hidden: "nat option") (shown_lines: "entry list") (closing: final_banner)

text \<open>What the generator does towards the outside, in order: yield a text or save a record.\<close>

datatype emission = Yield snapshot | Save checkpoint

text \<open>
  What one iteration of the \<open>while True\<close> loop observes, in program order: the clock;
  whether the worker thread is alive; the records in the queue at the first emptiness
  test; the records that arrived during the 0.1 s sleep (looked at only when the thread is
  not alive and the queue was empty); the records that arrived while the queue was
  drained; the two clock texts; the thread's liveness for the statistics line; and the stop
  flag.
\<close>

record tick =
  time_now :: real
  thread_alive :: bool
  queued :: "string list"
  queued_after_sleep :: "string list"
  queued_during_drain :: "string list"
  strftime_now :: string
  elapsed_now :: string
  alive_for_status :: bool
  stop_is_set :: bool

text \<open>The locals of the generator.\<close>

record stream_state =
  log_buffer :: "entry list"
  last_yield_time :: real
  last_heartbeat_time :: real
  last_save_time :: real
  line_count :: nat

text \<open>The loop is left at its top when the thread is not alive and the queue is empty twice.\<close>

definition exits_idle :: "tick \<Rightarrow> bool" where
  "exits_idle t \<longleftrightarrow> \<not> thread_alive t \<and> queued t = [] \<and> queued_after_sleep t = []"

text \<open>The records the drain loop of an iteration takes from the queue, oldest first.\<close>

definition found :: "tick \<Rightarrow> string list" where
  "found t =
     queued t @
     (if \<not> thread_alive t \<and> queued t = [] then queued_after_sleep t else []) @
     queued_during_drain t"

text \<open>
  The drain loop: each message is appended and counted, and the buffer is cut to its last
  \<open>MAX_HISTORY_LINES\<close> entries when it has grown beyond them.
\<close>

fun drain :: "string list \<Rightarrow> entry list \<times> nat \<Rightarrow> entry list \<times> nat" where
  "drain [] (buf, n) = (buf, n)"
| "drain (message # rest) (buf, n) =
     (let buf1 = buf @ [Rec message];
          buf2 = (if length buf1 > MAX_HISTORY_LINES then last_n MAX_HISTORY_LINES buf1 else buf1)
      in drain rest (buf2, Suc n))"

text \<open>The displayed lines and the number of the truncation banner.\<close>

definition display :: "entry list \<Rightarrow> nat option \<times> entry list" where
  "display buf =
     ((if length buf > MAX_DISPLAY_LINES then Some (length buf - MAX_DISPLAY_LINES) else None),
      last_n MAX_DISPLAY_LINES buf)"

text \<open>Whether an iteration yields the periodic text.\<close>

definition emits :: "stream_state \<Rightarrow> tick \<Rightarrow> bool" where
  "emits st t \<longleftrightarrow>
     (found t \<noteq> [] \<or> time_now t - last_heartbeat_time st \<ge> HEARTBEAT_INTERVAL)
     \<and> time_now t - last_yield_time st \<ge> MIN_YIELD_INTERVAL"

text \<open>
  One iteration from the drain to the periodic yield: drain, heartbeat, periodic save,
  yield.
\<close>

definition iteration :: "stream_state \<Rightarrow> tick \<Rightarrow> emission list \<times> stream_state" where
  "iteration st t =
     (let current_time = time_now t;
          (buf, n) = drain (found t) (log_buffer st, line_count st);
          beat = (current_time - last_heartbeat_time st \<ge> HEARTBEAT_INTERVAL);
          has_new_log = (found t \<noteq> [] \<or> beat);
          save = (current_time - last_save_time st \<ge> SAVE_INTERVAL);
          emit = (has_new_log \<and> current_time - last_yield_time st \<ge> MIN_YIELD_INTERVAL)
      in ((if save then [Save (Progress n (strftime_now t))] else []) @
          (if emit
           then [Yield (Live (fst (display buf)) (snd (display buf)) n (length (snd (display buf)))
                          (elapsed_now t) (alive_for_status t))]
           else []),
          \<lparr> log_buffer = buf,
            last_yield_time = (if emit then current_time else last_yield_time st),
            last_heartbeat_time = (if beat then current_time else last_heartbeat_time st),
            last_save_time = (if save then current_time else last_save_time st),
            line_count = n \<rparr>))"

text \<open>
  The \<open>while True\<close> loop over the observations of its iterations. The result is the
  outputs, the locals, and whether the loop was left; when the observations run out first
  the loop is still running.
\<close>

fun stream_loop :: "stream_state \<Rightarrow> tick list \<Rightarrow> emission list \<times> stream_state \<times> bool" where
  "stream_loop st [] = ([], st, False)"
| "stream_loop st (t # ts) =
     (if exits_idle t then ([], st, True)
      else
        (case iteration st t of
           (outs, st1) \<Rightarrow>
             if stop_is_set t then
               (let st2 = st1\<lparr>log_buffer := log_buffer st1 @ [StopNotice]\<rparr>
                in (outs @ [Yield (Stopping (last_n MAX_DISPLAY_LINES (log_buffer st2)))], st2, True))
             else
               (case stream_loop st1 ts of
                  (outs', st2, left) \<Rightarrow> (outs @ outs', st2, left))))"

text \<open>
  What the code after the loop observes: the records still in the queue, the stop flag, and
  the clock text.
\<close>

record final_obs =
  queued_at_end :: "string list"
  stop_at_end :: bool
  strftime_end :: string

text \<open>
  The code after the loop: the remaining records are appended and counted (the buffer is
  not cut here), the final record is saved and the final text is yielded.
\<close>

definition epilogue :: "stream_state \<Rightarrow> final_obs \<Rightarrow> emission list \<times> stream_state" where
  "epilogue st f =
     (let buf = log_buffer st @ map Rec (queued_at_end f);
          n = line_count st + length (queued_at_end f)
      in ([Save (Finished n (strftime_end f)),
           Yield (Final (fst (display buf)) (snd (display buf))
                    (if stop_at_end f then TaskStopped else TaskCompleted n))],
          st\<lparr>log_buffer := buf, line_count := n\<rparr>))"

record stream_result =
  outputs :: "emission list"
  final_state :: stream_state
  finished :: bool

text \<open>The locals at entry; the three clock readings at entry are taken as one.\<close>

definition initial_stream_state :: "real \<Rightarrow> stream_state" where
  "initial_stream_state start =
     \<lparr> log_buffer = [], last_yield_time = start, last_heartbeat_time = start,
       last_save_time = start, line_count = 0 \<rparr>"

text \<open>\<open>_stream_logs_with_heartbeat\<close>.\<close>

definition stream_logs :: "real \<Rightarrow> tick list \<Rightarrow> final_obs \<Rightarrow> stream_result" where
  "stream_logs start ticks f =
     (case stream_loop (initial_stream_state start) ticks of
        (outs, st, left) \<Rightarrow>
          if left then
            (case epilogue st f of
               (outs', st') \<Rightarrow> \<lparr>outputs = outs @ outs', final_state = st', finished = True\<rparr>)
          else \<lparr>outputs = outs, final_state = st, finished = False\<rparr>)"

section \<open>Notions for stating the properties of the stream\<close>

text \<open>The records the loop takes from the queue over the iterations it runs.\<close>

fun consumed :: "tick list \<Rightarrow> string list" where
  "consumed [] = []"
| "consumed (t # ts) =
     (if exits_idle t then []
      else if stop_is_set t then found t
      else found t @ consumed ts)"

text \<open>Whether the loop is left within the given iterations.\<close>

fun leaves :: "tick list \<Rightarrow> bool" where
  "leaves [] = False"
| "leaves (t # ts) = (exits_idle t \<or> stop_is_set t \<or> leaves ts)"

text \<open>All records taken from the queue by a call, in the order they were published.\<close>

definition published :: "tick list \<Rightarrow> final_obs \<Rightarrow> string list" where
  "published ticks f = consumed ticks @ (if leaves ticks then queued_at_end f else [])"




text \<open>Sample observations.\<close>

definition quiet_tick :: "real \<Rightarrow> tick" where
  "quiet_tick time =
     \<lparr> time_now = time, thread_alive = True, queued = [], queued_after_sleep = [],
       queued_during_drain = [], strftime_now = ''12:00:00'', elapsed_now = ''00:00:10'',
       alive_for_status = True, stop_is_set = False \<rparr>"

definition idle_tick :: "real \<Rightarrow> tick" where
  "idle_tick time = (quiet_tick time)\<lparr>thread_alive := False, alive_for_status := False\<rparr>"

definition quiet_end :: final_obs where
  "quiet_end = \<lparr> queued_at_end = [], stop_at_end = False, strftime_end = ''12:00:30'' \<rparr>"

definition many_records :: "string list" where
  "many_records = map show_nat [0..<505]"

text \<open>Whether the loop is left through the stop flag within the given iterations.\<close>

fun stopped :: "tick list \<Rightarrow> bool" where
  "stopped [] = False"
| "stopped (t # ts) = (if exits_idle t then False else if stop_is_set t then True else stopped ts)"

text \<open>
  The buffer as the drain loop keeps it: the last \<open>MAX_HISTORY_LINES\<close> of the records
  drained so far, with the line count equal to their number.
\<close>

definition clean_buffer :: "stream_state \<Rightarrow> string list \<Rightarrow> bool" where
  "clean_buffer st pre \<longleftrightarrow>
     log_buffer st = map Rec (last_n MAX_HISTORY_LINES pre) \<and> line_count st = length pre"

text \<open>The final text and the final record among the outputs.\<close>

fun is_final_text :: "emission \<Rightarrow> bool" where
  "is_final_text (Yield (Final h ls c)) = True"
| "is_final_text e = False"

fun is_final_record :: "emission \<Rightarrow> bool" where
  "is_final_record (Save (Finished n e)) = True"
| "is_final_record e = False"

text \<open>
  Sample runs: 505 records drained in one iteration before the thread ends; and an
  iteration that sees the stop flag while the thread is alive.
\<close>

definition busy_run :: "tick list" where
  "busy_run = [(quiet_tick 1)\<lparr>queued := many_records\<rparr>, idle_tick 2]"

definition stop_tick :: tick where
  "stop_tick = (quiet_tick 1)\<lparr>queued := [''[12:00:01]step 1''], stop_is_set := True\<rparr>"

text \<open>
  The buffer when a call ends: the kept records of the loop, the stop notice if the loop
  was left through the stop flag, and the records found after the loop.
\<close>

definition final_buffer :: "tick list \<Rightarrow> final_obs \<Rightarrow> entry list" where
  "final_buffer ticks f =
     map Rec (last_n MAX_HISTORY_LINES (consumed ticks)) @
     (if stopped ticks then [StopNotice] else []) @
     (if leaves ticks then map Rec (queued_at_end f) else [])"









section \<open>Properties of the text helpers\<close>

lemma split_nl_nonempty: "split_nl s \<noteq> []"
  by (induction s) (auto split: list.splits)

lemma split_nl_no_NL: "l \<in> set (split_nl s) \<Longrightarrow> NL \<notin> set l"
proof (induction s arbitrary: l)
  case Nil
  then show ?case by simp
next
  case (Cons c cs)
  show ?case
  proof (cases "c = NL")
    case True
    with Cons show ?thesis by auto
  next
    case False
    obtain h t where ht: "split_nl cs = h # t"
      using split_nl_nonempty [of cs] by (cases "split_nl cs") auto
    with False Cons.prems have "l = c # h \<or> l \<in> set t" by auto
    then show ?thesis
    proof
      assume "l = c # h"
      moreover have "NL \<notin> set h" using Cons.IH [of h] ht by simp
      ultimately show ?thesis using False by auto
    next
      assume "l \<in> set t"
      then show ?thesis using Cons.IH [of l] ht by simp
    qed
  qed
qed

lemma split_nl_single: "NL \<notin> set l \<Longrightarrow> split_nl l = [l]"
  by (induction l) auto

lemma split_nl_append_NL:
  "NL \<notin> set l \<Longrightarrow> split_nl (l @ NL # s) = l # split_nl s"
  by (induction l) auto

lemma split_join:
  "ls \<noteq> [] \<Longrightarrow> \<forall>l \<in> set ls. NL \<notin> set l \<Longrightarrow> split_nl (str_join [NL] ls) = ls"
proof (induction ls)
  case Nil
  then show ?case by simp
next
  case (Cons l ls)
  show ?case
  proof (cases ls)
    case Nil
    with Cons.prems show ?thesis by (simp add: split_nl_single)
  next
    case (Cons l' ls')
    with Cons.IH Cons.prems have "split_nl (str_join [NL] ls) = ls" by simp
    with Cons Cons.prems show ?thesis by (simp add: split_nl_append_NL)
  qed
qed

section \<open>The script rewrite keeps the first activation line and is idempotent\<close>

lemma clean_loop_acc:
  "clean_loop seen acc ls = acc @ clean_loop seen [] ls"
proof (induction ls arbitrary: seen acc)
  case Nil
  show ?case by simp
next
  case (Cons l ls)
  show ?case
    using Cons.IH [of seen "acc @ [l]"] Cons.IH [of seen "[l]"]
      Cons.IH [of "insert ''abc_runtime'' seen" "acc @ [l]"]
      Cons.IH [of "insert ''abc_runtime'' seen" "[l]"]
      Cons.IH [of seen acc]
    by (simp add: Let_def)
qed

lemma clean_loop_seen:
  "''abc_runtime'' \<in> seen \<Longrightarrow> clean_loop seen [] ls = filter plain ls"
proof (induction ls)
  case Nil
  show ?case by simp
next
  case (Cons l ls)
  then show ?case
    using clean_loop_acc [of seen "[l]" ls]
    by (simp add: Let_def plain_def is_activation_def is_hook_def)
qed

lemma clean_loop_unseen:
  "''abc_runtime'' \<notin> seen \<Longrightarrow> clean_loop seen [] ls = keep_first ls"
proof (induction ls)
  case Nil
  show ?case by simp
next
  case (Cons l ls)
  show ?case
  proof (cases "is_activation l")
    case True
    then show ?thesis
      using Cons.prems clean_loop_acc [of "insert ''abc_runtime'' seen" "[l]" ls]
        clean_loop_seen [of "insert ''abc_runtime'' seen" ls]
      by (simp add: Let_def is_activation_def)
  next
    case False
    then show ?thesis
      using Cons clean_loop_acc [of seen "[l]" ls]
      by (simp add: Let_def is_activation_def is_hook_def)
  qed
qed

lemma filter_act_plain: "filter (\<lambda>x. plain x \<and> is_activation x) xs = []"
  by (induction xs) (auto simp: plain_def)

lemma filter_act_keep_first:
  "filter is_activation (keep_first ls) = take 1 (filter is_activation ls)"
  by (induction ls) (auto simp: filter_act_plain)

lemma keep_first_fix: "keep_first (keep_first ls) = keep_first ls"
  by (induction ls) auto

lemma filter_act_clean_loop:
  "filter is_activation (clean_loop {} [] ls) = take 1 (filter is_activation ls)"
  by (simp add: clean_loop_unseen filter_act_keep_first)

lemma clean_loop_fix:
  "clean_loop {} [] (clean_loop {} [] ls) = clean_loop {} [] ls"
  by (simp add: clean_loop_unseen keep_first_fix)

lemma clean_loop_subset: "set (clean_loop seen [] ls) \<subseteq> set ls"
proof (induction ls arbitrary: seen)
  case Nil
  show ?case by simp
next
  case (Cons l ls)
  show ?case
    using Cons.IH [of seen] Cons.IH [of "insert ''abc_runtime'' seen"]
      clean_loop_acc [of seen "[l]" ls] clean_loop_acc [of "insert ''abc_runtime'' seen" "[l]" ls]
    by (auto simp: Let_def)
qed

lemma not_activation_empty: "\<not> is_activation []"
  by (simp add: is_activation_def strip_def activation_directive_def)

lemma not_hook_empty: "\<not> is_hook []"
  by (simp add: is_hook_def strip_def conda_hook_def)

lemma split_clean:
  "split_nl (clean_script_content c) =
     (if clean_loop {} [] (split_nl c) = [] then [[]] else clean_loop {} [] (split_nl c))"
proof (cases "clean_loop {} [] (split_nl c) = []")
  case True
  then show ?thesis by (simp add: clean_script_content_def)
next
  case False
  have "\<forall>l \<in> set (clean_loop {} [] (split_nl c)). NL \<notin> set l"
    using clean_loop_subset [of "{}" "split_nl c"] split_nl_no_NL by blast
  with False show ?thesis by (simp add: clean_script_content_def split_join)
qed

text \<open>
  Claim C4 says that a script containing the directive three times is rewritten to one
  containing it exactly once. The rewrite drops whole lines: a line that holds the
  directive three times is the first activation line and is kept as it is, with all three
  occurrences.
\<close>

theorem clean_same_line_counterexample:
  "count_occurrences activation_directive three_on_one_line = 3
   \<and> clean_script_content three_on_one_line = three_on_one_line
   \<and> count_occurrences activation_directive (clean_script_content three_on_one_line) = 3"
proof -
  have c: "clean_script_content three_on_one_line = three_on_one_line"
    by (simp add: clean_script_content_def three_on_one_line_def Let_def strip_def is_space_def
        activation_directive_def conda_hook_def NL_def)
  have n: "count_occurrences activation_directive three_on_one_line = 3"
    by (simp add: three_on_one_line_def activation_directive_def)
  show ?thesis using c n by simp
qed

text \<open>
  Claim C4, amended. The rewrite \<open>_clean_script_content\<close> works line by line. Among the
  lines of the cleaned content, those that contain the activation directive are exactly the
  first such line of the input (none when the input has none): a script with three
  activation lines is rewritten to content with exactly one, the first. The rewrite is
  idempotent.
\<close>

theorem clean_keeps_first_and_idempotent:
  "filter is_activation (split_nl (clean_script_content c)) =
     take 1 (filter is_activation (split_nl c))
   \<and> clean_script_content (clean_script_content c) = clean_script_content c"
proof
  show "filter is_activation (split_nl (clean_script_content c)) =
     take 1 (filter is_activation (split_nl c))"
  proof (cases "clean_loop {} [] (split_nl c) = []")
    case True
    then have "split_nl (clean_script_content c) = [[]]" by (simp add: split_clean)
    moreover have "take 1 (filter is_activation (split_nl c)) = []"
      using filter_act_clean_loop [of "split_nl c"] True by simp
    ultimately show ?thesis by (simp add: not_activation_empty)
  next
    case False
    then show ?thesis by (simp add: split_clean filter_act_clean_loop)
  qed
next
  show "clean_script_content (clean_script_content c) = clean_script_content c"
  proof (cases "clean_loop {} [] (split_nl c) = []")
    case True
    then have "split_nl (clean_script_content c) = [[]]" by (simp add: split_clean)
    moreover have "clean_loop {} [] [[]] = [[]]"
      using not_activation_empty not_hook_empty
      by (simp add: Let_def is_activation_def is_hook_def)
    moreover have "clean_script_content c = []" using True by (simp add: clean_script_content_def)
    ultimately show ?thesis by (simp add: clean_script_content_def)
  next
    case False
    then show ?thesis
      using clean_loop_fix [of "split_nl c"] split_clean [of c]
      by (simp add: clean_script_content_def)
  qed
qed

text \<open>A script with three activation lines and a hook line.\<close>

lemma clean_script_content_example: "clean_script_content
  (''mamba activate abc_runtime'' @ [NL] @ ''echo a'' @ [NL] @ ''  mamba activate abc_runtime'' @ [NL] @
   ''eval $(conda shell.bash hook)'' @ [NL] @ ''mamba activate abc_runtime'') 
  = ''mamba activate abc_runtime'' @ [NL] @ ''echo a''"
  by (simp add: clean_script_content_def Let_def strip_def is_space_def activation_directive_def conda_hook_def NL_def)

section \<open>Properties of the executor\<close>

lemma terminate_inactive:
  "\<not> has_running_process self \<Longrightarrow> terminate self obs = (self, [], [no_process_msg])"
proof (cases "current_process self")
  case None
  then show ?thesis by (simp add: terminate_def no_process_msg_def)
next
  case (Some proc)
  assume "\<not> has_running_process self"
  with Some obtain y where "poll proc = Some y" by (auto simp: has_running_process_def)
  with Some show ?thesis by (simp add: terminate_def no_process_msg_def)
qed

lemma terminate_leaves_inactive: "\<not> has_running_process (fst (terminate self obs))"
proof (cases "has_running_process self")
  case False
  then show ?thesis by (simp add: terminate_inactive)
next
  case True
  then obtain proc where p: "current_process self = Some proc" "poll proc = None"
    by (auto simp: has_running_process_def split: option.splits)
  then have "current_process (fst (terminate self obs)) = None"
    by (simp add: terminate_def Let_def split_beta)
  then show ?thesis by (simp add: has_running_process_def)
qed

text \<open>
  Claim C9. When no process is stored, or the stored process has already exited,
  \<open>terminate\<close> returns normally, leaves the executor as it is, takes no action on any
  process and prints only the line that there is nothing to terminate. After any call of
  \<open>terminate\<close> a second call is such a no-op.
\<close>

theorem terminate_noop_when_inactive:
  "(\<not> has_running_process self \<longrightarrow> terminate self obs = (self, [], [no_process_msg]))
   \<and> terminate (fst (terminate self obs)) obs' = (fst (terminate self obs), [], [no_process_msg])"
  using terminate_inactive [of self obs]
    terminate_inactive [OF terminate_leaves_inactive [of self obs], of obs']
  by simp

theorem terminate_noop_witness:
  "\<not> has_running_process exited_executor
   \<and> terminate exited_executor quiet_kill_obs = (exited_executor, [], [no_process_msg])
   \<and> \<not> has_running_process init_executor
   \<and> terminate init_executor quiet_kill_obs = (init_executor, [], [no_process_msg])"
  using terminate_noop_when_inactive [of exited_executor quiet_kill_obs quiet_kill_obs]
    terminate_noop_when_inactive [of init_executor quiet_kill_obs quiet_kill_obs]
  by (simp add: exited_executor_def init_executor_def has_running_process_def)

lemma terminate_running_example:
  "terminate running_executor quiet_kill_obs =
     (running_executor\<lparr>is_interrupted := True, current_process := None\<rparr>,
      [Killpg 4242 SIGTERM, WaitFor (Some 2)],
      [''[EXECUTOR] Terminating process 4242...'',
       ''[EXECUTOR] Killing process group 4242...'',
       ''[EXECUTOR] Process group 4242 terminated''])"
  by (simp add: terminate_def running_executor_def init_executor_def quiet_kill_obs_def
      group_kill_def Let_def)


lemma script_text_cong:
  "code_prefix a = code_prefix b \<Longrightarrow> code_postfix a = code_postfix b \<Longrightarrow>
   script_text a c = script_text b c"
  by (simp add: script_text_def)

lemma execute_missing:
  "files fs path = None \<Longrightarrow>
   execute self fs path obs =
     \<lparr>ex_self = self\<lparr>bash_code_path := Some path, is_interrupted := False\<rparr>, ex_fs = fs,
      ex_command = None, ex_outcome = Some (Inl (FileNotFoundError path))\<rparr>"
  by (simp add: execute_def read_file_def Let_def)

lemma execute_unwritable:
  "files fs path = Some content \<Longrightarrow> unwritable fs (path @ ''.execute.sh'') \<Longrightarrow>
   execute self fs path obs =
     \<lparr>ex_self = self\<lparr>bash_code_path := Some path, is_interrupted := False,
                       bash_code_path_execute := Some (path @ ''.execute.sh'')\<rparr>,
      ex_fs = fs, ex_command = None,
      ex_outcome = Some (Inl (PermissionError (path @ ''.execute.sh'')))\<rparr>"
  by (simp add: execute_def read_file_def write_file_def Let_def)

lemma execute_started:
  "files fs path = Some content \<Longrightarrow> \<not> unwritable fs (path @ ''.execute.sh'') \<Longrightarrow>
   execute self fs path obs =
     \<lparr>ex_self = fst (run_process
                 (self\<lparr>bash_code_path := Some path, is_interrupted := False,
                        bash_code_path_execute := Some (path @ ''.execute.sh'')\<rparr>) obs),
      ex_fs = fs\<lparr>files := (files fs)(path @ ''.execute.sh'' \<mapsto>
                 script_text self (clean_script_content content))\<rparr>,
      ex_command = Some [''bash'', ''-e'', path @ ''.execute.sh''],
      ex_outcome = snd (run_process
                 (self\<lparr>bash_code_path := Some path, is_interrupted := False,
                        bash_code_path_execute := Some (path @ ''.execute.sh'')\<rparr>) obs)\<rparr>"
  by (simp add: execute_def read_file_def write_file_def Let_def split_beta script_text_def)

lemma execute_cases:
  obtains (missing) "files fs path = None"
  | (unwritable) content where "files fs path = Some content" "unwritable fs (path @ ''.execute.sh'')"
  | (started) content where "files fs path = Some content" "\<not> unwritable fs (path @ ''.execute.sh'')"
  by (cases "files fs path") auto

text \<open>
  Claim C10. \<open>execute\<close> never changes the file at the script path, nor any file other
  than the sibling \<open>path + ".execute.sh"\<close>. When the script can be read and the sibling
  written, the sibling holds the prefix commands, the cleaned content and the postfix
  commands, and the command handed to \<open>Popen\<close> is \<open>bash -e\<close> on the sibling; no other
  command is ever spawned. (What the spawned script itself does to files is outside
  \<open>execute\<close>.)
\<close>

theorem execute_leaves_original:
  "files (ex_fs (execute self fs path obs)) path = files fs path
   \<and> (\<forall>p. p \<noteq> path @ ''.execute.sh'' \<longrightarrow> files (ex_fs (execute self fs path obs)) p = files fs p)
   \<and> (ex_command (execute self fs path obs) = None
        \<or> ex_command (execute self fs path obs) = Some [''bash'', ''-e'', path @ ''.execute.sh''])
   \<and> (\<forall>content. files fs path = Some content \<and> \<not> unwritable fs (path @ ''.execute.sh'') \<longrightarrow>
          files (ex_fs (execute self fs path obs)) (path @ ''.execute.sh'') =
            Some (script_text self (clean_script_content content))
          \<and> ex_command (execute self fs path obs) = Some [''bash'', ''-e'', path @ ''.execute.sh''])"
proof (cases rule: execute_cases [of fs path])
  case missing
  then show ?thesis by (simp add: execute_missing)
next
  case (unwritable content)
  then show ?thesis by (simp add: execute_unwritable)
next
  case (started content)
  then show ?thesis by (simp add: execute_started)
qed

theorem execute_leaves_original_witness:
  "files (ex_fs (execute init_executor example_fs ''/work/run.sh'' example_obs)) ''/work/run.sh''
     = Some example_script
   \<and> files (ex_fs (execute init_executor example_fs ''/work/run.sh'' example_obs)) ''/other''
     = files example_fs ''/other''
   \<and> files (ex_fs (execute init_executor example_fs ''/work/run.sh'' example_obs))
       ''/work/run.sh.execute.sh''
     = Some (script_text init_executor (clean_script_content example_script))
   \<and> ex_command (execute init_executor example_fs ''/work/run.sh'' example_obs)
     = Some [''bash'', ''-e'', ''/work/run.sh.execute.sh'']"
  using execute_leaves_original [of init_executor example_fs "''/work/run.sh''" example_obs]
  by (simp add: example_fs_def)





text \<open>
  The execute script also carries the activation line of the prefix: for a script with one
  activation line, the file handed to \<open>bash\<close> has two.
\<close>

lemma execute_script_activation_lines:
  "filter is_activation
     (split_nl (script_text init_executor (clean_script_content example_script))) =
   [''mamba activate abc_runtime'', ''mamba activate abc_runtime'']"
  by (simp add: script_text_def init_executor_def clean_script_content_def example_script_def
      Let_def strip_def is_space_def activation_directive_def conda_hook_def NL_def
      is_activation_def)

section \<open>Properties of starting and stopping\<close>

lemma good_request_valid:
  "missing_keys (config good_request) = []" "api_key good_request \<noteq> []"
  "strip (api_key good_request) \<noteq> []"
  by (simp_all add: good_request_def missing_keys_def required_keys_def strip_def is_space_def)

text \<open>
  Claim C1 says that the cancellation signal carries a generation counter and that the
  boolean, once set, is never cleared before the next task is created. The task state has
  no counter, and the worker's \<open>finally\<close> clause clears the flag: after a start, a stop
  request and the worker's completion the flag is unset again, with one task created
  before and after.
\<close>

theorem stop_flag_cleared_counterexample:
  "stop_flag (run_events [StartRequest good_request 100 ''12:00:00'' 1, StopRequest] idle_state)
   \<and> \<not> stop_flag (run_events [StartRequest good_request 100 ''12:00:00'' 1, StopRequest,
                                WorkerFinally] idle_state)
   \<and> tasks_created [StartRequest good_request 100 ''12:00:00'' 1, StopRequest] idle_state = 1
   \<and> tasks_created [StartRequest good_request 100 ''12:00:00'' 1, StopRequest, WorkerFinally]
         idle_state = 1"
  by (simp add: run_events_def start_task_def good_request_valid idle_state_def is_task_running_def
      init_task_state_def clear_log_queue_def save_task_state_def set_current_thread_def
      stop_analysis_def reset_task_state_def Let_def)

lemma start_task_accepted:
  "fst (start_task req now now_text thread s) = Accepted \<Longrightarrow>
   \<not> stop_flag (snd (start_task req now now_text thread s))"
  by (simp add: start_task_def init_task_state_def clear_log_queue_def save_task_state_def
      set_current_thread_def Let_def split: if_splits)

lemma start_task_rejected:
  "fst (start_task req now now_text thread s) \<noteq> Accepted \<Longrightarrow>
   snd (start_task req now now_text thread s) = s"
  by (auto simp: start_task_def Let_def split: if_splits)

text \<open>
  Claim C1, amended. The cancellation signal is the stop flag alone. Every accepted start
  leaves it unset; a set flag becomes unset only through an accepted start or through the
  worker's completion path (\<open>reset_task_state\<close>); the interrupt signal sets it, and a
  stop request sets it whenever a task is running.
\<close>

theorem stop_flag_cleared_only_by_start_or_worker:
  "(creates_task e s \<longrightarrow> \<not> stop_flag (step e s))
   \<and> (stop_flag s \<and> \<not> stop_flag (step e s) \<longrightarrow> creates_task e s \<or> e = WorkerFinally)
   \<and> stop_flag (step Sigint s)
   \<and> (is_task_running s \<longrightarrow> stop_flag (step StopRequest s))"
proof (cases e)
  case (StartRequest req now now_text thread)
  show ?thesis
  proof (cases "fst (start_task req now now_text thread s) = Accepted")
    case True
    with StartRequest start_task_accepted [of req now now_text thread s] show ?thesis
      by (simp add: signal_handler_def stop_analysis_def)
  next
    case False
    with StartRequest start_task_rejected [of req now now_text thread s] show ?thesis
      by (simp add: signal_handler_def stop_analysis_def)
  qed
next
  case StopRequest
  then show ?thesis by (simp add: stop_analysis_def signal_handler_def)
next
  case Sigint
  then show ?thesis by (simp add: stop_analysis_def signal_handler_def)
next
  case WorkerFinally
  then show ?thesis by (simp add: stop_analysis_def signal_handler_def)
next
  case (StreamEnd n t)
  then show ?thesis by (simp add: stop_analysis_def signal_handler_def save_task_state_def)
qed

theorem stop_flag_cleared_witness:
  "creates_task (StartRequest good_request 100 ''12:00:00'' 1) (idle_state\<lparr>stop_flag := True\<rparr>)
   \<and> \<not> stop_flag (step (StartRequest good_request 100 ''12:00:00'' 1)
                     (idle_state\<lparr>stop_flag := True\<rparr>))
   \<and> is_task_running busy_state
   \<and> stop_flag (step StopRequest busy_state)"
proof -
  have a: "creates_task (StartRequest good_request 100 ''12:00:00'' 1) (idle_state\<lparr>stop_flag := True\<rparr>)"
    by (simp add: start_task_def good_request_valid idle_state_def is_task_running_def Let_def)
  have b: "is_task_running busy_state"
    by (simp add: busy_state_def is_task_running_def)
  show ?thesis
    using a b
      stop_flag_cleared_only_by_start_or_worker
        [of "StartRequest good_request 100 ''12:00:00'' 1" "idle_state\<lparr>stop_flag := True\<rparr>"]
      stop_flag_cleared_only_by_start_or_worker [of StopRequest busy_state]
    by simp
qed







text \<open>
  The amended claim leaves out the time between the end of the stream and the worker's
  completion. The running check reads \<open>task_running\<close>, which the end of the streaming
  loop clears: after a stop request has ended the stream, a new start is accepted whether
  or not the worker has reached its \<open>finally\<close> clause.
\<close>

lemma start_accepted_after_stream_end:
  "fst (start_task good_request 300 ''12:10:00'' 2
         (run_events [StartRequest good_request 100 ''12:00:00'' 1, StopRequest,
                      StreamEnd 0 ''12:00:05''] idle_state)) = Accepted"
  by (simp add: run_events_def start_task_def good_request_valid idle_state_def is_task_running_def
      init_task_state_def clear_log_queue_def save_task_state_def set_current_thread_def
      stop_analysis_def Let_def)

section \<open>Properties of the streaming loop\<close>

lemma last_n_short: "length xs \<le> n \<Longrightarrow> last_n n xs = xs"
  by (simp add: last_n_def)

lemma length_last_n: "length (last_n n xs) = min n (length xs)"
  by (simp add: last_n_def)

lemma last_n_last_n_append:
  "k \<le> m \<Longrightarrow> last_n k (last_n m xs @ ys) = last_n k (xs @ ys)"
proof -
  assume km: "k \<le> m"
  have "length xs + length ys - (length xs - m + k) + (length xs - m) = length xs + length ys - k"
    using km by arith
  then show ?thesis using km by (simp add: last_n_def)
qed

lemma last_n_map: "last_n n (map f xs) = map f (last_n n xs)"
  by (simp add: last_n_def drop_map)

lemma drain_eq:
  "length buf \<le> MAX_HISTORY_LINES \<Longrightarrow>
   drain rs (buf, n) = (last_n MAX_HISTORY_LINES (buf @ map Rec rs), n + length rs)"
proof (induction rs arbitrary: buf n)
  case Nil
  then show ?case by (simp add: last_n_short)
next
  case (Cons r rs)
  let ?b = "last_n MAX_HISTORY_LINES (buf @ [Rec r])"
  have "drain (r # rs) (buf, n) = drain rs (?b, Suc n)"
    by (simp add: Let_def last_n_short)
  also have "\<dots> = (last_n MAX_HISTORY_LINES (?b @ map Rec rs), Suc n + length rs)"
    by (rule Cons.IH) (simp add: length_last_n)
  also have "last_n MAX_HISTORY_LINES (?b @ map Rec rs) =
      last_n MAX_HISTORY_LINES ((buf @ [Rec r]) @ map Rec rs)"
    by (rule last_n_last_n_append) simp
  finally show ?case by simp
qed



lemma last_n_eq_drop_take:
  "b \<le> length pub \<Longrightarrow> last_n k (take b pub) = drop (b - k) (take b pub)"
  by (simp add: last_n_def min_def)



lemma initial_clean: "clean_buffer (initial_stream_state start) []"
  by (simp add: clean_buffer_def initial_stream_state_def last_n_def)

lemma drain_clean:
  assumes "clean_buffer st pre"
  shows "drain rs (log_buffer st, line_count st) =
      (map Rec (last_n MAX_HISTORY_LINES (pre @ rs)), length (pre @ rs))"
proof -
  have len: "length (log_buffer st) \<le> MAX_HISTORY_LINES"
    using assms by (simp add: clean_buffer_def length_last_n)
  have e: "drain rs (log_buffer st, line_count st) =
      (last_n MAX_HISTORY_LINES (log_buffer st @ map Rec rs), line_count st + length rs)"
    by (rule drain_eq [OF len])
  have n: "line_count st + length rs = length (pre @ rs)"
    using assms by (simp add: clean_buffer_def)
  have "last_n MAX_HISTORY_LINES (log_buffer st @ map Rec rs) =
      last_n MAX_HISTORY_LINES (map Rec (last_n MAX_HISTORY_LINES pre @ rs))"
    using assms by (simp add: clean_buffer_def)
  also have "\<dots> = map Rec (last_n MAX_HISTORY_LINES (last_n MAX_HISTORY_LINES pre @ rs))"
    by (rule last_n_map)
  also have "\<dots> = map Rec (last_n MAX_HISTORY_LINES (pre @ rs))"
    by (simp add: last_n_last_n_append)
  finally show ?thesis
    unfolding e n by simp
qed

lemma iteration_state:
  assumes "clean_buffer st pre"
  shows "clean_buffer (snd (iteration st t)) (pre @ found t)"
    and "last_yield_time (snd (iteration st t)) = (if emits st t then time_now t else last_yield_time st)"
    and "last_heartbeat_time (snd (iteration st t)) =
           (if time_now t - last_heartbeat_time st \<ge> HEARTBEAT_INTERVAL then time_now t
            else last_heartbeat_time st)"
proof -
  have d: "drain (found t) (log_buffer st, line_count st) =
      (map Rec (last_n MAX_HISTORY_LINES (pre @ found t)), length (pre @ found t))"
    using assms by (rule drain_clean)
  show "clean_buffer (snd (iteration st t)) (pre @ found t)"
    by (simp add: iteration_def d Let_def clean_buffer_def)
  show "last_yield_time (snd (iteration st t)) = (if emits st t then time_now t else last_yield_time st)"
    by (simp add: iteration_def d Let_def emits_def)
  show "last_heartbeat_time (snd (iteration st t)) =
           (if time_now t - last_heartbeat_time st \<ge> HEARTBEAT_INTERVAL then time_now t
            else last_heartbeat_time st)"
    by (simp add: iteration_def d Let_def)
qed


lemma stream_loop_leaves: "snd (snd (stream_loop st ticks)) = leaves ticks"
  by (induction ticks arbitrary: st) (simp_all add: Let_def split_beta)

lemma stream_loop_buffer:
  "clean_buffer st pre \<Longrightarrow>
   log_buffer (fst (snd (stream_loop st ticks))) =
     map Rec (last_n MAX_HISTORY_LINES (pre @ consumed ticks)) @
     (if stopped ticks then [StopNotice] else [])
   \<and> line_count (fst (snd (stream_loop st ticks))) = length (pre @ consumed ticks)"
proof (induction ticks arbitrary: st pre)
  case Nil
  then show ?case by (simp add: clean_buffer_def)
next
  case (Cons t ts)
  have c: "clean_buffer (snd (iteration st t)) (pre @ found t)"
    using Cons.prems by (rule iteration_state)
  show ?case
  proof (cases "exits_idle t")
    case True
    with Cons.prems show ?thesis by (simp add: clean_buffer_def)
  next
    case False
    show ?thesis
    proof (cases "stop_is_set t")
      case True
      with False c show ?thesis
        by (simp add: Let_def split_beta clean_buffer_def)
    next
      case nostop: False
      with False Cons.IH [OF c] show ?thesis
        by (simp add: split_beta)
    qed
  qed
qed

lemma leaves_iff: "leaves ticks \<longleftrightarrow> (\<exists>t \<in> set ticks. exits_idle t \<or> stop_is_set t)"
  by (induction ticks) auto

lemma iteration_not_final:
  "e \<in> set (fst (iteration st t)) \<Longrightarrow> \<not> is_final_text e \<and> \<not> is_final_record e"
  by (auto simp: iteration_def Let_def split_beta split: if_splits)

lemma stream_loop_not_final:
  "e \<in> set (fst (stream_loop st ticks)) \<Longrightarrow> \<not> is_final_text e \<and> \<not> is_final_record e"
proof (induction ticks arbitrary: st)
  case Nil
  then show ?case by simp
next
  case (Cons t ts)
  show ?case
  proof (cases "exits_idle t")
    case True
    with Cons.prems show ?thesis by simp
  next
    case False
    show ?thesis
    proof (cases "stop_is_set t")
      case True
      with False Cons.prems iteration_not_final [of e st t] show ?thesis
        by (auto simp: Let_def split_beta)
    next
      case nostop: False
      with False Cons.prems iteration_not_final [of e st t]
        Cons.IH [of "snd (iteration st t)"] show ?thesis
        by (auto simp: split_beta)
    qed
  qed
qed

lemma stream_logs_finished: "finished (stream_logs start ticks f) = leaves ticks"
  using stream_loop_leaves [of "initial_stream_state start" ticks]
  by (simp add: stream_logs_def split_beta)

lemma stream_logs_running:
  "\<not> leaves ticks \<Longrightarrow>
   outputs (stream_logs start ticks f) = fst (stream_loop (initial_stream_state start) ticks)
   \<and> final_state (stream_logs start ticks f) =
       fst (snd (stream_loop (initial_stream_state start) ticks))"
  using stream_loop_leaves [of "initial_stream_state start" ticks]
  by (simp add: stream_logs_def split_beta)

lemma stream_logs_left:
  assumes "leaves ticks"
  shows "outputs (stream_logs start ticks f) =
      fst (stream_loop (initial_stream_state start) ticks) @
      [Save (Finished (length (published ticks f)) (strftime_end f)),
       Yield (Final (fst (display (final_buffer ticks f))) (snd (display (final_buffer ticks f)))
                (if stop_at_end f then TaskStopped
                 else TaskCompleted (length (published ticks f))))]"
    and "log_buffer (final_state (stream_logs start ticks f)) = final_buffer ticks f"
proof -
  have l: "snd (snd (stream_loop (initial_stream_state start) ticks))"
    using assms by (simp add: stream_loop_leaves)
  have b: "log_buffer (fst (snd (stream_loop (initial_stream_state start) ticks))) =
      map Rec (last_n MAX_HISTORY_LINES (consumed ticks)) @
      (if stopped ticks then [StopNotice] else [])"
    and n: "line_count (fst (snd (stream_loop (initial_stream_state start) ticks))) =
      length (consumed ticks)"
    using stream_loop_buffer [OF initial_clean, of start ticks] by simp_all
  show "outputs (stream_logs start ticks f) =
      fst (stream_loop (initial_stream_state start) ticks) @
      [Save (Finished (length (published ticks f)) (strftime_end f)),
       Yield (Final (fst (display (final_buffer ticks f))) (snd (display (final_buffer ticks f)))
                (if stop_at_end f then TaskStopped
                 else TaskCompleted (length (published ticks f))))]"
    using l assms
    by (simp add: stream_logs_def split_beta epilogue_def Let_def b n final_buffer_def published_def)
  show "log_buffer (final_state (stream_logs start ticks f)) = final_buffer ticks f"
    using l assms
    by (simp add: stream_logs_def split_beta epilogue_def Let_def b n final_buffer_def)
qed

lemma final_buffer_running:
  "\<not> leaves ticks \<Longrightarrow>
   log_buffer (final_state (stream_logs start ticks f)) = final_buffer ticks f"
proof -
  assume nl: "\<not> leaves ticks"
  have "\<not> stopped ticks" using nl by (induction ticks) (auto split: if_splits)
  then show ?thesis
    using nl stream_loop_buffer [OF initial_clean, of start ticks]
    by (simp add: stream_logs_running final_buffer_def)
qed

text \<open>
  Claim C5, amended. The sequence ends exactly when some iteration either finds the worker
  thread not alive and the queue empty at both tests, or sees the stop flag set. When it
  ends, the last two outputs are the final record, saved with \<open>running\<close> false, and then
  the final text, which closes with the stopped line or the completed line; nothing before
  them is a final record or a final text. While it has not ended, no final record is saved
  and no final text is yielded.
\<close>

theorem stream_ends_on_idle_or_stop:
  "(finished (stream_logs start ticks f) \<longleftrightarrow> (\<exists>t \<in> set ticks. exits_idle t \<or> stop_is_set t))
   \<and> (finished (stream_logs start ticks f) \<longrightarrow>
        (\<exists>before n h ls.
           outputs (stream_logs start ticks f) =
             before @ [Save (Finished n (strftime_end f)),
                       Yield (Final h ls (if stop_at_end f then TaskStopped else TaskCompleted n))]
           \<and> \<not> running (Finished n (strftime_end f))
           \<and> (\<forall>e \<in> set before. \<not> is_final_text e \<and> \<not> is_final_record e)))
   \<and> (\<not> finished (stream_logs start ticks f) \<longrightarrow>
        (\<forall>e \<in> set (outputs (stream_logs start ticks f)). \<not> is_final_text e \<and> \<not> is_final_record e))"
proof (cases "leaves ticks")
  case True
  have "\<forall>e \<in> set (fst (stream_loop (initial_stream_state start) ticks)).
      \<not> is_final_text e \<and> \<not> is_final_record e"
    using stream_loop_not_final by blast
  with True show ?thesis
    using leaves_iff [of ticks] stream_logs_left(1) [OF True, of start f]
    by (simp add: stream_logs_finished)
next
  case False
  have "\<forall>e \<in> set (fst (stream_loop (initial_stream_state start) ticks)).
      \<not> is_final_text e \<and> \<not> is_final_record e"
    using stream_loop_not_final by blast
  with False show ?thesis
    using leaves_iff [of ticks]
    by (simp add: stream_logs_finished stream_logs_running)
qed

text \<open>
  Claim C5 says that the sequence ends exactly when the worker is no longer alive and the
  queue is empty. The loop is also left when the stop flag is set: here the thread is alive
  and the queue holds a record, and the sequence ends.
\<close>

theorem stream_ends_counterexample:
  "thread_alive stop_tick \<and> queued stop_tick \<noteq> []
   \<and> finished (stream_logs 0 [stop_tick] quiet_end)"
  by (simp add: stream_logs_finished stop_tick_def quiet_tick_def)

theorem stream_ends_witness:
  "finished (stream_logs 0 [quiet_tick 1, idle_tick 2] quiet_end)
   \<and> outputs (stream_logs 0 [quiet_tick 1, idle_tick 2] quiet_end) =
       [Save (Finished 0 ''12:00:30''), Yield (Final None [] (TaskCompleted 0))]
   \<and> \<not> finished (stream_logs 0 [quiet_tick 1] quiet_end)
   \<and> outputs (stream_logs 0 [quiet_tick 1] quiet_end) = []"
  using stream_ends_on_idle_or_stop [of 0 "[quiet_tick 1, idle_tick 2]" quiet_end]
    stream_ends_on_idle_or_stop [of 0 "[quiet_tick 1]" quiet_end]
  by (simp add: stream_logs_def quiet_tick_def idle_tick_def quiet_end_def exits_idle_def
      initial_stream_state_def iteration_def found_def Let_def epilogue_def display_def
      last_n_def HEARTBEAT_INTERVAL_def SAVE_INTERVAL_def MIN_YIELD_INTERVAL_def
      MAX_DISPLAY_LINES_def)

lemma not_leaves_not_stopped: "stopped ticks \<Longrightarrow> leaves ticks"
  by (induction ticks) (auto split: if_splits)

lemma final_buffer_full:
  assumes "length (consumed ticks) = MAX_HISTORY_LINES + 5" and "\<not> stopped ticks"
    and "queued_at_end f = []"
  shows "final_buffer ticks f = map Rec (drop 5 (consumed ticks))"
    and "display (final_buffer ticks f) = (Some 400, map Rec (drop 405 (consumed ticks)))"
proof -
  show b: "final_buffer ticks f = map Rec (drop 5 (consumed ticks))"
    using assms by (simp add: final_buffer_def last_n_def)
  show "display (final_buffer ticks f) = (Some 400, map Rec (drop 405 (consumed ticks)))"
    using assms(1)
    by (simp add: b display_def last_n_def MAX_DISPLAY_LINES_def MAX_HISTORY_LINES_def drop_map)
qed

lemma busy_run_facts:
  "length (consumed busy_run) = MAX_HISTORY_LINES + 5" "\<not> stopped busy_run" "leaves busy_run"
  "consumed busy_run = many_records" "queued_at_end quiet_end = []" "\<not> stop_at_end quiet_end"
  "published busy_run quiet_end = many_records"
  by (simp_all add: busy_run_def quiet_tick_def idle_tick_def exits_idle_def found_def
      many_records_def MAX_HISTORY_LINES_def quiet_end_def published_def)

text \<open>
  Claim C2 says that after \<open>H + 5\<close> records the snapshot's banner reports 5 hidden
  lines. The banner counts the buffer's entries beyond the 100 displayed ones: with 505
  records published and drained, the final text reports 400.
\<close>

theorem full_buffer_banner_counterexample:
  "length many_records = MAX_HISTORY_LINES + 5
   \<and> published busy_run quiet_end = many_records
   \<and> last (outputs (stream_logs 0 busy_run quiet_end)) =
       Yield (Final (Some 400) (map Rec (drop 405 many_records)) (TaskCompleted 505))"
proof -
  have "display (final_buffer busy_run quiet_end) = (Some 400, map Rec (drop 405 many_records))"
    using final_buffer_full(2) [OF busy_run_facts(1) busy_run_facts(2) busy_run_facts(5)]
    by (simp add: busy_run_facts(4))
  then show ?thesis
    using busy_run_facts
    by (simp add: stream_logs_left(1) [OF busy_run_facts(3)] MAX_HISTORY_LINES_def)
qed

text \<open>
  Claim C2, amended. When the loop has drained \<open>H + 5\<close> records, was not left through the
  stop flag, and no further record is found after the loop, the rolling buffer holds
  exactly \<open>H = 500\<close> entries, the records without the oldest 5, in publish order; and the
  final text shows the newest \<open>D = 100\<close> of them under a banner that reports
  \<open>H - D = 400\<close> hidden lines.
\<close>

theorem full_buffer_keeps_newest:
  assumes "length (consumed ticks) = MAX_HISTORY_LINES + 5" and "\<not> stopped ticks"
    and "queued_at_end f = []"
  shows "log_buffer (final_state (stream_logs start ticks f)) = map Rec (drop 5 (consumed ticks))
    \<and> length (log_buffer (final_state (stream_logs start ticks f))) = MAX_HISTORY_LINES
    \<and> (finished (stream_logs start ticks f) \<longrightarrow>
         last (outputs (stream_logs start ticks f)) =
           Yield (Final (Some (MAX_HISTORY_LINES - MAX_DISPLAY_LINES))
                    (map Rec (drop (5 + (MAX_HISTORY_LINES - MAX_DISPLAY_LINES)) (consumed ticks)))
                    (if stop_at_end f then TaskStopped else TaskCompleted (MAX_HISTORY_LINES + 5))))
    \<and> MAX_HISTORY_LINES - MAX_DISPLAY_LINES = 400"
proof -
  have b: "log_buffer (final_state (stream_logs start ticks f)) = final_buffer ticks f"
    using stream_logs_left(2) [of ticks start f] final_buffer_running [of ticks start f] by blast
  have p: "leaves ticks \<Longrightarrow> length (published ticks f) = MAX_HISTORY_LINES + 5"
    using assms by (simp add: published_def)
  have d: "display (map Rec (drop 5 (consumed ticks))) =
      (Some 400, map Rec (drop 405 (consumed ticks)))"
    using final_buffer_full [OF assms] by simp
  show ?thesis
    using assms(1) p
    by (simp add: b final_buffer_full(1) [OF assms] d stream_logs_finished stream_logs_left(1)
        MAX_HISTORY_LINES_def MAX_DISPLAY_LINES_def)
qed

theorem full_buffer_witness:
  "length (consumed busy_run) = MAX_HISTORY_LINES + 5 \<and> \<not> stopped busy_run
   \<and> queued_at_end quiet_end = []
   \<and> log_buffer (final_state (stream_logs 0 busy_run quiet_end)) = map Rec (drop 5 many_records)
   \<and> finished (stream_logs 0 busy_run quiet_end)
   \<and> last (outputs (stream_logs 0 busy_run quiet_end)) =
       Yield (Final (Some 400) (map Rec (drop 405 many_records)) (TaskCompleted 505))"
  using full_buffer_keeps_newest [OF busy_run_facts(1) busy_run_facts(2) busy_run_facts(5), of 0]
    busy_run_facts
  by (simp add: stream_logs_finished MAX_HISTORY_LINES_def MAX_DISPLAY_LINES_def)













lemma stopped_leaves: "stopped ticks \<Longrightarrow> leaves ticks"
  by (induction ticks) (auto split: if_splits)















end
